theory Spec2Isabelle
  imports Complex_Main "HOL-Library.Log_Nat" "HOL-Library.Word"
begin

unbundle bit_operations_syntax

section \<open>Python values used by \<open>techlife_led.py\<close>\<close>

text \<open>
  The controller class \<open>TechlifeLED\<close> builds binary frames with \<open>struct.pack\<close>, fixes a
  checksum byte and hands the result to an MQTT client.  Python integers are \<open>int\<close>, the
  bytes of a frame are \<open>8 word\<close>, and every exception the code can meet is a value of
  \<open>error\<close>; \<open>ctor_error\<close> lists what the constructor of a colour can raise.
\<close>

type_synonym byte = "8 word"

datatype ctor_error =
    ValidationError  \<comment> \<open>\<open>pydantic.ValidationError\<close>, the one exception \<open>set_color\<close> catches\<close>
  | ColorError       \<comment> \<open>what \<open>Color(...)\<close> raises on an input it rejects: \<open>ColorError\<close> in
                        pydantic 1, \<open>PydanticCustomError\<close> in pydantic 2; neither is a
                        \<open>ValidationError\<close>\<close>

datatype error =
    StructError  \<comment> \<open>\<open>struct.error\<close>: an argument of \<open>pack\<close> is out of range, or the count is wrong\<close>
  | TypeError    \<comment> \<open>\<open>reduce\<close> of an empty sequence with no initial value\<close>
  | IndexError   \<comment> \<open>\<open>payload[14] = ...\<close> on a bytearray shorter than 15\<close>
  | InvalidColor \<comment> \<open>\<open>ValueError(f"Invalid color: {color}")\<close> raised by \<open>set_color\<close>\<close>
  | Uncaught ctor_error
                 \<comment> \<open>an exception of the \<open>Color\<close> constructor that \<open>set_color\<close> does not catch
                    and that reaches the caller as it is\<close>

subsection \<open>Double-precision floats\<close>

text \<open>
  \<open>self._brightness\<close> is a Python \<open>float\<close>, an IEEE 754 binary64 number.  A finite
  double is modelled by the rational number it denotes, and every arithmetic operation is the
  exact rational operation followed by \<open>round_double\<close>, rounding to the nearest double with
  ties to the even significand (53 bits of precision, gradual underflow below \<open>2 powi -1022\<close>).
  Overflow to infinity is not modelled: every number the controller computes lies between 0
  and 2550000.
\<close>

type_synonym double = rat

definition py_round :: "double \<Rightarrow> int" where
  \<comment> \<open>Python 3 \<open>round(x)\<close> with one argument: nearest integer, ties to even\<close>
  "py_round q =
     (let f = \<lfloor>q\<rfloor>; r = q - of_int f
      in if r < 1 / 2 then f else if 1 / 2 < r then f + 1 else if even f then f else f + 1)"

definition ilog2 :: "rat \<Rightarrow> int" where
  \<comment> \<open>for \<open>0 < q\<close>: the exponent \<open>e\<close> of the binade of \<open>q\<close>, \<open>2 powi e \<le> q < 2 powi (e + 1)\<close>\<close>
  "ilog2 q =
     (let (n, d) = quotient_of q;
          k = bitlen n - bitlen d
      in if 2 powi k \<le> q then k else k - 1)"

definition round_double :: "rat \<Rightarrow> double" where
  "round_double q =
     (if q = 0 then 0
      else let e = max (ilog2 \<bar>q\<bar>) (- 1022); u = 2 powi (e - 52)
           in of_int (py_round (q / u)) * u)"

definition float_of_int :: "int \<Rightarrow> double" where
  \<comment> \<open>the conversion Python applies to an \<open>int\<close> operand of a mixed operation\<close>
  "float_of_int n = round_double (of_int n)"

definition float_mul :: "double \<Rightarrow> double \<Rightarrow> double" where
  "float_mul a b = round_double (a * b)"

definition float_truediv :: "double \<Rightarrow> double \<Rightarrow> double" where
  \<comment> \<open>\<open>a / b\<close>; the only divisor in the source is the literal \<open>100.0\<close>\<close>
  "float_truediv a b = round_double (a / b)"

definition float_floordiv :: "double \<Rightarrow> double \<Rightarrow> double" where
  \<comment> \<open>\<open>a // b\<close> on floats: the floor of the exact quotient, as a double.  The only
      divisor in the source is the literal \<open>255\<close> and the dividend is a double between 0
      and 2550000, where the remainder \<open>fmod(a, b)\<close>, the difference \<open>a - fmod(a, b)\<close> and
      its quotient by 255 are all computed without rounding.\<close>
  "float_floordiv a b = round_double (of_int \<lfloor>a / b\<rfloor>)"

definition int_of_float :: "double \<Rightarrow> int" where
  \<comment> \<open>\<open>int(x)\<close> on a float truncates towards zero\<close>
  "int_of_float q = (if 0 \<le> q then \<lfloor>q\<rfloor> else \<lceil>q\<rceil>)"

subsection \<open>\<open>struct.Struct("<B6H3B")\<close>\<close>

datatype fmt = B | H

definition pack_one :: "fmt \<Rightarrow> int \<Rightarrow> error + byte list" where
  \<comment> \<open>\<open>B\<close>: one unsigned byte; \<open>H\<close>: an unsigned 16-bit value, low byte first (\<open><\<close>)\<close>
  "pack_one f v =
     (case f of
        B \<Rightarrow> if 0 \<le> v \<and> v \<le> 255 then Inr [word_of_int v] else Inl StructError
      | H \<Rightarrow> if 0 \<le> v \<and> v \<le> 65535 then Inr [word_of_int v, word_of_int (v div 256)]
             else Inl StructError)"

fun pack_all :: "fmt list \<Rightarrow> int list \<Rightarrow> error + byte list" where
  "pack_all [] [] = Inr []"
| "pack_all (f # fs) (v # vs) =
     (case pack_one f v of
        Inl e \<Rightarrow> Inl e
      | Inr bs \<Rightarrow> (case pack_all fs vs of Inl e \<Rightarrow> Inl e | Inr rest \<Rightarrow> Inr (bs @ rest)))"
| "pack_all _ _ = Inl StructError"

fun calcsize :: "fmt list \<Rightarrow> nat" where
  \<comment> \<open>the number of bytes a format packs to (\<open>struct.calcsize\<close>, \<open>Struct.size\<close>)\<close>
  "calcsize [] = 0"
| "calcsize (B # fs) = 1 + calcsize fs"
| "calcsize (H # fs) = 2 + calcsize fs"

definition FRAME :: "fmt list" where
  "FRAME = [B, H, H, H, H, H, H, B, B, B]"

definition FRAME_pack :: "int list \<Rightarrow> error + byte list" where
  "FRAME_pack vs = pack_all FRAME vs"

definition CMD_SET_STATIC :: int where "CMD_SET_STATIC = 0x28"
definition TAIL_SET_STATIC :: int where "TAIL_SET_STATIC = 0x29"
definition FLAG_SET_STATIC :: int where "FLAG_SET_STATIC = 0x0F"
definition CMD_ANIMATE :: int where "CMD_ANIMATE = 0x66"
definition SUBMODE_ANIMATE :: int where "SUBMODE_ANIMATE = 0x25"
definition TAIL_ANIMATE :: int where "TAIL_ANIMATE = 0x99"
definition CMD_POWER :: int where "CMD_POWER = 0xFA"
definition SUB_ON :: int where "SUB_ON = 0x23"
definition SUB_OFF :: int where "SUB_OFF = 0x24"
definition TAIL_POWER :: int where "TAIL_POWER = 0xFB"
definition CMD_UPDATE :: int where "CMD_UPDATE = 0xA9"
definition SUB_UPDATE :: int where "SUB_UPDATE = 0xF0"
definition TAIL_UPDATE :: int where "TAIL_UPDATE = 0x9A"

section \<open>The controller\<close>

subsection \<open>State\<close>

text \<open>
  \<open>pydantic.color.Color\<close> is an external class.  A \<open>Color\<close> value always holds three
  channels that \<open>as_rgb_tuple(alpha=False)\<close> returns as integers from 0 to 255, so it is
  modelled by three bytes.  Its constructor is a parameter \<open>parse\<close> of \<open>set_color\<close>: it
  returns the colour (\<open>Inr\<close>) or the exception it raises (\<open>Inl\<close>).  \<open>set_color\<close> wraps
  a \<open>ValidationError\<close> and lets every other exception through.
\<close>

datatype Color = RGB byte byte byte

fun as_rgb_tuple :: "Color \<Rightarrow> int \<times> int \<times> int" where
  "as_rgb_tuple (RGB r g b) = (uint r, uint g, uint b)"

datatype color_like = ColorObj Color | Str string | Tuple int int int

text \<open>
  The fields \<open>self._on\<close>, \<open>self._brightness\<close>, \<open>self._color\<close> and
  \<open>self._animation_speed\<close>, and the payloads handed to \<open>self.client.publish\<close>, oldest
  first.  Topic and quality of service are fixed at construction and passed through unchanged.
\<close>

record state =
  self_on :: bool
  self_brightness :: double
  self_color :: Color
  self_animation_speed :: int
  published :: "byte list list"

definition init :: state where
  \<comment> \<open>\<open>__init__\<close>; \<open>Color("#ffffff")\<close> is white\<close>
  "init = \<lparr>self_on = False, self_brightness = 1, self_color = RGB 255 255 255,
           self_animation_speed = 99, published = []\<rparr>"

type_synonym outcome = "error option \<times> state"

subsection \<open>Checksum and transmission\<close>

definition insert_checksum :: "byte list \<Rightarrow> error + byte list" where
  "insert_checksum frame =
     (let payload = frame
      in case take 13 (drop 1 payload) of
           [] \<Rightarrow> Inl TypeError
         | y # ys \<Rightarrow>
             let checksum = foldl (XOR) y ys AND 0xFF
             in if 14 < length payload then Inr (payload[14 := checksum]) else Inl IndexError)"

definition send_with_checksum :: "state \<Rightarrow> byte list \<Rightarrow> outcome" where
  "send_with_checksum s frame =
     (case insert_checksum frame of
        Inl e \<Rightarrow> (Some e, s)
      | Inr payload \<Rightarrow> (None, s\<lparr>published := published s @ [payload]\<rparr>))"

subsection \<open>Operations\<close>

definition on :: "state \<Rightarrow> outcome" where
  "on s =
     (case FRAME_pack [CMD_POWER, SUB_ON, 0, 0, 0, 0, 0, 0, 0, TAIL_POWER] of
        Inl e \<Rightarrow> (Some e, s)
      | Inr frame \<Rightarrow>
          (case send_with_checksum s frame of
             (Some e, s') \<Rightarrow> (Some e, s')
           | (None, s') \<Rightarrow> (None, s'\<lparr>self_on := True\<rparr>)))"

definition off :: "state \<Rightarrow> outcome" where
  "off s =
     (case FRAME_pack [CMD_POWER, SUB_OFF, 0, 0, 0, 0, 0, 0, 0, TAIL_POWER] of
        Inl e \<Rightarrow> (Some e, s)
      | Inr frame \<Rightarrow>
          (case send_with_checksum s frame of
             (Some e, s') \<Rightarrow> (Some e, s')
           | (None, s') \<Rightarrow> (None, s'\<lparr>self_on := False\<rparr>)))"

definition is_on :: "state \<Rightarrow> bool" where
  "is_on s = self_on s"

definition level :: "double \<Rightarrow> int \<Rightarrow> int" where
  \<comment> \<open>the local function of \<open>_apply_static\<close>: \<open>int((x * 10000 * self._brightness) // 255)\<close>\<close>
  "level brightness x =
     int_of_float
       (float_floordiv (float_mul (float_of_int (x * 10000)) brightness) (float_of_int 255))"

definition brightness_0_100 :: "double \<Rightarrow> int" where
  \<comment> \<open>\<open>int(round(100 * self._brightness))\<close>\<close>
  "brightness_0_100 brightness = py_round (float_mul (float_of_int 100) brightness)"

definition apply_static :: "state \<Rightarrow> outcome" where
  "apply_static s =
     (let (r, g, b) = as_rgb_tuple (self_color s);
          red = level (self_brightness s) r;
          green = level (self_brightness s) g;
          blue = level (self_brightness s) b
      in (case FRAME_pack [CMD_SET_STATIC, red, green, blue, 0, 0,
                           brightness_0_100 (self_brightness s),
                           FLAG_SET_STATIC, 0, TAIL_SET_STATIC] of
            Inl e \<Rightarrow> (Some e, s)
          | Inr frame \<Rightarrow> send_with_checksum s frame))"

definition set_color ::
  "(color_like \<Rightarrow> ctor_error + Color) \<Rightarrow> color_like \<Rightarrow> state \<Rightarrow> outcome" where
  "set_color parse color s =
     (case color of
        ColorObj c \<Rightarrow> apply_static (s\<lparr>self_color := c\<rparr>)
      | _ \<Rightarrow>
          (case parse color of
             Inl err \<Rightarrow>
               if err = ValidationError then (Some InvalidColor, s) else (Some (Uncaught err), s)
           | Inr c \<Rightarrow> apply_static (s\<lparr>self_color := c\<rparr>)))"

definition stored_brightness :: "int \<Rightarrow> double" where
  \<comment> \<open>\<open>value / 100.0\<close>, the right-hand side of the assignment in \<open>set_brightness\<close>\<close>
  "stored_brightness v = float_truediv (float_of_int v) 100"

definition set_brightness :: "int \<Rightarrow> state \<Rightarrow> outcome" where
  "set_brightness v s =
     (let v' = max 0 (min 100 v)
      in apply_static (s\<lparr>self_brightness := stored_brightness v'\<rparr>))"

definition get_brightness :: "state \<Rightarrow> int" where
  "get_brightness s = py_round (float_mul (self_brightness s) (float_of_int 100))"

definition set_animation_speed :: "int \<Rightarrow> state \<Rightarrow> outcome" where
  "set_animation_speed speed s = (None, s\<lparr>self_animation_speed := max 1 (min 100 speed)\<rparr>)"

definition device_speed :: "int \<Rightarrow> int" where
  \<comment> \<open>\<open>(100 - self._animation_speed) * 255 // 100\<close>, on integers\<close>
  "device_speed speed = (100 - speed) * 255 div 100"

definition animate :: "bool \<Rightarrow> state \<Rightarrow> outcome" where
  "animate enabled s =
     (if enabled then
        (case FRAME_pack [CMD_ANIMATE, SUBMODE_ANIMATE, device_speed (self_animation_speed s),
                          0x64, 0, 0, 0, 0, 0, TAIL_ANIMATE] of
           Inl e \<Rightarrow> (Some e, s)
         | Inr frame \<Rightarrow> send_with_checksum s frame)
      else apply_static s)"

definition update :: "state \<Rightarrow> outcome" where
  "update s =
     (case FRAME_pack [CMD_UPDATE, SUB_UPDATE, 0, 0, 0, 0, 0, 0, 0, TAIL_UPDATE] of
        Inl e \<Rightarrow> (Some e, s)
      | Inr frame \<Rightarrow>
          (case send_with_checksum s frame of
             (Some e, s') \<Rightarrow> (Some e, s')
           | (None, s') \<Rightarrow> (None, s'\<lparr>self_on := True\<rparr>)))"

subsection \<open>Callers\<close>

text \<open>
  A caller invokes the public methods one after the other.  The reachable states are the
  states \<open>run parse cs init\<close>, for any sequence \<open>cs\<close> of calls; a call that raises
  leaves the object in the state it had at the \<open>raise\<close>, and the caller may go on.
\<close>

datatype command =
    On | Off | SetColor color_like | SetBrightness int | SetAnimationSpeed int
  | Animate bool | Update

fun exec :: "(color_like \<Rightarrow> ctor_error + Color) \<Rightarrow> command \<Rightarrow> state \<Rightarrow> outcome" where
  "exec parse On s = on s"
| "exec parse Off s = off s"
| "exec parse (SetColor c) s = set_color parse c s"
| "exec parse (SetBrightness v) s = set_brightness v s"
| "exec parse (SetAnimationSpeed v) s = set_animation_speed v s"
| "exec parse (Animate e) s = animate e s"
| "exec parse Update s = update s"

fun run :: "(color_like \<Rightarrow> ctor_error + Color) \<Rightarrow> command list \<Rightarrow> state \<Rightarrow> state" where
  "run parse [] s = s"
| "run parse (c # cs) s = run parse cs (snd (exec parse c s))"

subsection \<open>Reading a frame\<close>

definition u16_at :: "byte list \<Rightarrow> nat \<Rightarrow> int" where
  \<comment> \<open>the little-endian 16-bit field that starts at offset \<open>i\<close>\<close>
  "u16_at p i = uint (p ! i) + 256 * uint (p ! (i + 1))"

definition xor_1_13 :: "byte list \<Rightarrow> byte" where
  \<comment> \<open>the bitwise XOR of the bytes at offsets 1 to 13\<close>
  "xor_1_13 f = f ! 1 XOR f ! 2 XOR f ! 3 XOR f ! 4 XOR f ! 5 XOR f ! 6 XOR f ! 7 XOR f ! 8
                XOR f ! 9 XOR f ! 10 XOR f ! 11 XOR f ! 12 XOR f ! 13"

definition last_frame :: "state \<Rightarrow> byte list" where
  \<comment> \<open>the payload of the latest \<open>publish\<close>\<close>
  "last_frame s = last (published s)"


subsection \<open>The invariant of the stored values\<close>

definition valid_state :: "state \<Rightarrow> bool" where
  \<comment> \<open>the brightness is the double stored for a percentage from 0 to 100, the speed is
      between 1 and 100\<close>
  "valid_state s \<longleftrightarrow>
     (\<exists>p\<in>{0..100}. self_brightness s = stored_brightness p)
     \<and> 1 \<le> self_animation_speed s \<and> self_animation_speed s \<le> 100"

section \<open>Properties of the arithmetic\<close>

lemma py_round_near: "\<bar>of_int (py_round q) - q\<bar> \<le> 1 / 2"
  unfolding py_round_def Let_def by (auto simp: abs_if; linarith?)

lemma py_round_of_int: "py_round (of_int m) = m"
  by (simp add: py_round_def)

lemma py_round_unique:
  assumes "\<bar>q - of_int m\<bar> < 1 / 2"
  shows "py_round q = m"
proof -
  have "\<lfloor>q\<rfloor> = m \<or> \<lfloor>q\<rfloor> = m - 1"
    using assms by (auto simp: abs_if split: if_splits; linarith?)
  then show ?thesis
    using assms unfolding py_round_def Let_def
    by (auto simp: abs_if split: if_splits; linarith?)
qed

lemma bitlen_powi:
  assumes "0 < n"
  shows "2 powi (bitlen n - 1) \<le> (of_int n :: rat) \<and> (of_int n :: rat) < 2 powi (bitlen n)"
proof -
  have b: "2 ^ nat (bitlen n - 1) \<le> n \<and> n < 2 ^ nat (bitlen n)"
    using bitlen_bounds [OF assms] .
  have pos: "1 \<le> bitlen n"
    using assms bitlen_eq_zero_iff [of n] bitlen_nonneg [of n] by linarith
  have "(of_int (2 ^ nat (bitlen n - 1)) :: rat) \<le> of_int n"
    using b by (simp only: of_int_le_iff)
  moreover have "(of_int n :: rat) < of_int (2 ^ nat (bitlen n))"
    using b by (simp only: of_int_less_iff)
  ultimately show ?thesis
    using pos by (simp add: power_int_def)
qed

text \<open>\<open>ilog2\<close> finds the binade of a positive rational.\<close>

lemma ilog2_bounds:
  assumes "0 < q"
  shows "2 powi (ilog2 q) \<le> q \<and> q < 2 powi (ilog2 q + 1)"
proof -
  obtain n d where nd: "quotient_of q = (n, d)" by (cases "quotient_of q")
  have d: "0 < d" using nd quotient_of_denom_pos by blast
  have q: "q = of_int n / of_int d" using nd by (rule quotient_of_div)
  have n: "0 < n" using assms d q by (simp add: zero_less_divide_iff)
  define a where "a = bitlen n"
  define c where "c = bitlen d"
  have bn: "2 powi (a - 1) \<le> (of_int n :: rat)" "(of_int n :: rat) < 2 powi a"
    using bitlen_powi [OF n] by (simp_all add: a_def)
  have bd: "2 powi (c - 1) \<le> (of_int d :: rat)" "(of_int d :: rat) < 2 powi c"
    using bitlen_powi [OF d] by (simp_all add: c_def)
  have dpos: "(0::rat) < of_int d" using d by simp
  have qd: "q * of_int d = of_int n" using q dpos by simp
  have up: "q < 2 powi (a - c + 1)"
  proof -
    have "q * 2 powi (c - 1) \<le> q * of_int d" using assms bd(1) by simp
    also have "\<dots> = of_int n" by fact
    also have "\<dots> < 2 powi a" by fact
    finally have "q * 2 powi (c - 1) < (2::rat) powi a" .
    moreover have "(2::rat) powi (a - c + 1) * 2 powi (c - 1) = 2 powi a"
      by (simp add: power_int_add [symmetric])
    ultimately have "q * 2 powi (c - 1) < 2 powi (a - c + 1) * (2::rat) powi (c - 1)" by simp
    then show ?thesis by (simp add: mult_less_cancel_right)
  qed
  have lo: "2 powi (a - c - 1) \<le> q"
  proof -
    have "(2::rat) powi (a - c - 1) * 2 powi c = 2 powi (a - 1)"
      by (simp add: power_int_add [symmetric])
    also have "\<dots> \<le> of_int n" by fact
    also have "\<dots> = q * of_int d" using qd by simp
    also have "\<dots> \<le> q * 2 powi c" using assms bd(2) by simp
    finally show ?thesis by (simp add: mult_le_cancel_right)
  qed
  have il: "ilog2 q = (if 2 powi (a - c) \<le> q then a - c else a - c - 1)"
    by (simp add: ilog2_def nd a_def c_def)
  show ?thesis
    using up lo by (auto simp: il)
qed

lemma powi_mono_exp:
  assumes "(2::rat) powi a < 2 powi b"
  shows "a < b"
proof (rule ccontr)
  assume "\<not> a < b"
  then have "b \<le> a" by simp
  then have "(2::rat) powi b \<le> 2 powi a" by (rule power_int_increasing) simp
  with assms show False by simp
qed

text \<open>
  Rounding a number of the normal range to a double changes it by at most half a unit in the
  last place, which is at most \<open>2 ^ 53\<close>-th of the number.
\<close>

lemma round_double_error:
  assumes "2 powi (- 1022) \<le> q"
  shows "\<bar>round_double q - q\<bar> \<le> q / 2 ^ 53"
proof -
  have qpos: "0 < q"
    using assms by (rule less_le_trans [rotated]) simp
  define e where "e = ilog2 q"
  have eb: "2 powi e \<le> q" "q < 2 powi (e + 1)"
    using ilog2_bounds [OF qpos] by (simp_all add: e_def)
  have "(2::rat) powi (- 1022) < 2 powi (e + 1)"
    using assms eb(2) by (rule le_less_trans)
  then have "- 1022 < e + 1" by (rule powi_mono_exp)
  then have emax: "max e (- 1022) = e" by simp
  define u :: rat where "u = 2 powi (e - 52)"
  have upos: "0 < u" by (simp add: u_def)
  define r :: rat where "r = of_int (py_round (q / u))"
  have rd: "round_double q = r * u"
    using qpos emax by (simp add: round_double_def e_def u_def r_def Let_def)
  have near: "\<bar>r - q / u\<bar> \<le> 1 / 2"
    unfolding r_def by (rule py_round_near)
  have "r * u - q = (r - q / u) * u" using upos by (simp add: algebra_simps)
  then have "\<bar>r * u - q\<bar> = \<bar>r - q / u\<bar> * u" using upos by (simp add: abs_mult)
  also have "\<dots> \<le> 1 / 2 * u" using near upos by (simp only: mult_le_cancel_right) simp
  finally have "\<bar>round_double q - q\<bar> \<le> u / 2" by (simp add: rd)
  moreover have "u / 2 = 2 powi e / 2 ^ 53"
    by (simp add: u_def power_int_diff)
  moreover have "2 powi e / 2 ^ 53 \<le> q / 2 ^ 53"
    using eb(1) by (simp add: divide_le_cancel)
  ultimately show ?thesis by simp
qed

text \<open>Integers below \<open>2 ^ 53\<close> are doubles: converting them is exact.\<close>

lemma round_double_int:
  assumes "0 \<le> n" "n < 2 ^ 53"
  shows "round_double (of_int n) = of_int n"
proof (cases "n = 0")
  case True
  then show ?thesis by (simp add: round_double_def)
next
  case False
  then have npos: "(0::rat) < of_int n" using assms by simp
  define e where "e = ilog2 (of_int n)"
  have eb: "2 powi e \<le> (of_int n :: rat)" "(of_int n :: rat) < 2 powi (e + 1)"
    using ilog2_bounds [OF npos] by (simp_all add: e_def)
  have "(1::rat) \<le> of_int n" using False assms by simp
  then have "(2::rat) powi 0 < 2 powi (e + 1)" using eb(2) by simp
  then have e0: "0 \<le> e" using powi_mono_exp by fastforce
  have "(of_int n :: rat) < of_int (2 ^ 53)" using assms(2) by (simp only: of_int_less_iff)
  then have "(of_int n :: rat) < 2 powi 53" by simp
  with eb(1) have "(2::rat) powi e < 2 powi 53" by (rule le_less_trans)
  then have e52: "e \<le> 52" using powi_mono_exp by fastforce
  define k where "k = nat (52 - e)"
  define u :: rat where "u = 2 powi (e - 52)"
  have u: "u = 1 / 2 ^ k"
    using e52 by (simp add: u_def k_def power_int_def power_one_over)
  have "of_int n / u = of_int (n * 2 ^ k)" by (simp add: u)
  then have "py_round (of_int n / u) = n * 2 ^ k" by (simp only: py_round_of_int)
  moreover have "round_double (of_int n) = of_int (py_round (of_int n / u)) * u"
    using npos e0 by (simp add: round_double_def e_def [symmetric] u_def Let_def)
  ultimately show ?thesis by (simp add: u)
qed

lemma float_of_int_exact:
  assumes "0 \<le> n" "n < 2 ^ 53"
  shows "float_of_int n = of_int n"
  using assms by (simp add: float_of_int_def round_double_int)

lemma powi_m1022_small: "(2::rat) powi (- 1022) \<le> 1 / 4"
proof -
  have "(2::rat) powi (- 1022) \<le> 2 powi (- 2)"
    by (rule power_int_increasing) simp_all
  then show ?thesis by (simp add: power_int_minus)
qed

lemma stored_brightness_eq:
  assumes "0 \<le> p" "p \<le> 100"
  shows "stored_brightness p = round_double (of_int p / 100)"
proof -
  have "p < 2 ^ 53" using assms by simp
  then show ?thesis
    using assms by (simp add: stored_brightness_def float_truediv_def float_of_int_exact)
qed

lemma stored_brightness_0: "stored_brightness 0 = 0"
  by (simp add: stored_brightness_eq round_double_def)

lemma stored_brightness_near:
  assumes "1 \<le> p" "p \<le> 100"
  shows "\<bar>stored_brightness p - of_int p / 100\<bar> \<le> 1 / 2 ^ 53"
proof -
  have p1: "(1::rat) \<le> of_int p" using assms by simp
  have p100: "(of_int p :: rat) \<le> 100" using assms by simp
  have "(1::rat) / 4 \<le> 1 / 100 * 100 / 4" by simp
  have lo: "2 powi (- 1022) \<le> (of_int p :: rat) / 100"
    using powi_m1022_small p1 by (simp add: field_simps)
  have "\<bar>round_double (of_int p / 100) - of_int p / 100\<bar> \<le> (of_int p / 100) / 2 ^ 53"
    using lo by (rule round_double_error)
  also have "\<dots> \<le> 1 / 2 ^ 53" using p100 by (simp add: field_simps)
  finally show ?thesis using assms by (simp add: stored_brightness_eq)
qed

text \<open>
  The double product \<open>x * 10000 * self._brightness\<close> stays within a quarter of the exact
  integer \<open>x * 100 * p\<close>.
\<close>

lemma scaled_product_near:
  assumes x: "0 \<le> x" "x \<le> 255" and p: "0 \<le> p" "p \<le> 100"
  shows "\<bar>float_mul (float_of_int (x * 10000)) (stored_brightness p) - of_int (x * 100 * p)\<bar>
           \<le> 1 / 4"
proof -
  have N: "0 \<le> x * 10000" "x * 10000 < 2 ^ 53" using x by simp_all
  have fN: "float_of_int (x * 10000) = of_int (x * 10000)"
    using N by (rule float_of_int_exact)
  show ?thesis
  proof (cases "x = 0 \<or> p = 0")
    case True
    then show ?thesis
      by (auto simp: fN float_mul_def stored_brightness_0 round_double_def)
  next
    case False
    then have x1: "1 \<le> x" and p1: "1 \<le> p" using x p by simp_all
    define b where "b = stored_brightness p"
    define Nr :: rat where "Nr = of_int (x * 10000)"
    define E :: rat where "E = of_int (x * 100 * p)"
    have Nr: "0 \<le> Nr" "Nr \<le> 2550000" using x by (simp_all add: Nr_def)
    have E: "E = Nr * (of_int p / 100)" by (simp add: E_def Nr_def)
    have E100: "100 \<le> E"
    proof -
      have "1 * 100 * 1 \<le> x * 100 * p"
        using x1 p1 by (intro mult_mono) simp_all
      then have "(of_int (1 * 100 * 1) :: rat) \<le> of_int (x * 100 * p)"
        by (simp only: of_int_le_iff)
      then show ?thesis by (simp add: E_def)
    qed
    have Eup: "E \<le> 2550000"
    proof -
      have "x * 100 * p \<le> 255 * 100 * 100"
        using x p by (intro mult_mono) simp_all
      then have "(of_int (x * 100 * p) :: rat) \<le> of_int (255 * 100 * 100)"
        by (simp only: of_int_le_iff)
      then show ?thesis by (simp add: E_def)
    qed
    have bn: "\<bar>b - of_int p / 100\<bar> \<le> 1 / 2 ^ 53"
      unfolding b_def using p1 p(2) by (rule stored_brightness_near)
    define q where "q = Nr * b"
    have "q - E = Nr * (b - of_int p / 100)" by (simp add: q_def E algebra_simps)
    then have "\<bar>q - E\<bar> = Nr * \<bar>b - of_int p / 100\<bar>"
      using Nr(1) by (simp add: abs_mult)
    also have "\<dots> \<le> Nr * (1 / 2 ^ 53)" using bn Nr(1) by (rule mult_left_mono)
    also have "\<dots> \<le> 2550000 * (1 / 2 ^ 53)" using Nr(2) by (rule mult_right_mono) simp
    also have "\<dots> \<le> 1 / 8" by simp
    finally have qE: "\<bar>q - E\<bar> \<le> 1 / 8" .
    have qlo: "99 \<le> q" and qhi: "q \<le> 2550001"
      using qE E100 Eup by linarith+
    have "2 powi (- 1022) \<le> q"
      using powi_m1022_small qlo by linarith
    then have "\<bar>round_double q - q\<bar> \<le> q / 2 ^ 53"
      by (rule round_double_error)
    also have "\<dots> \<le> 2550001 / 2 ^ 53" using qhi by (simp add: divide_le_cancel)
    also have "\<dots> \<le> 1 / 8" by simp
    finally have "\<bar>round_double q - q\<bar> \<le> 1 / 8" .
    with qE have "\<bar>round_double q - E\<bar> \<le> 1 / 4" by linarith
    then show ?thesis by (simp add: fN float_mul_def b_def Nr_def E_def q_def)
  qed
qed

lemma py_round_nonneg: "0 \<le> q \<Longrightarrow> 0 \<le> py_round q"
  unfolding py_round_def Let_def by (auto; linarith?)

lemma round_double_nonneg:
  assumes "0 \<le> q"
  shows "0 \<le> round_double q"
proof -
  have "0 \<le> q / 2 powi k" for k :: int using assms by simp
  then have "0 \<le> py_round (q / 2 powi k)" for k :: int by (rule py_round_nonneg)
  then show ?thesis by (simp add: round_double_def Let_def)
qed

text \<open>
  For a channel \<open>x\<close> of a colour and a stored percentage \<open>p\<close>, \<open>level\<close> is the integer
  quotient of \<open>x * 100 * p\<close> by 255, or one less when the division leaves no remainder and the
  double product fell just below the exact value.
\<close>

lemma level_stored:
  assumes x: "0 \<le> x" "x \<le> 255" and p: "0 \<le> p" "p \<le> 100"
  shows "level (stored_brightness p) x = x * 100 * p div 255
         \<or> (level (stored_brightness p) x = x * 100 * p div 255 - 1 \<and> x * 100 * p mod 255 = 0)"
    and "0 \<le> level (stored_brightness p) x"
    and "level (stored_brightness p) x \<le> 10000"
proof -
  define V where "V = float_mul (float_of_int (x * 10000)) (stored_brightness p)"
  define E where "E = x * 100 * p"
  define k where "k = E div 255"
  define r where "r = E mod 255"
  have near: "\<bar>V - of_int E\<bar> \<le> 1 / 4"
    unfolding V_def E_def using x p by (rule scaled_product_near)
  have b0: "0 \<le> stored_brightness p"
    using p by (simp add: stored_brightness_eq round_double_nonneg)
  have f0: "0 \<le> float_of_int (x * 10000)"
    using x(1) by (simp add: float_of_int_def round_double_nonneg)
  have V0: "0 \<le> V"
    unfolding V_def float_mul_def
    using f0 b0 by (intro round_double_nonneg mult_nonneg_nonneg)
  have E0: "0 \<le> E" using x p by (simp add: E_def)
  have Eup: "E \<le> 2550000"
  proof -
    have "x * 100 * p \<le> 255 * 100 * 100" using x p by (intro mult_mono) simp_all
    then show ?thesis by (simp add: E_def)
  qed
  have Ekr: "E = 255 * k + r" and r: "0 \<le> r" "r < 255"
    by (simp_all add: k_def r_def)
  have k: "0 \<le> k" "k \<le> 10000" using E0 Eup Ekr r by linarith+
  define m where "m = \<lfloor>V / 255\<rfloor>"
  have m0: "0 \<le> m" using V0 by (simp add: m_def)
  have Er: "(of_int E :: rat) = 255 * of_int k + of_int r"
    using Ekr by (metis of_int_add of_int_mult of_int_numeral)
  have rr: "(0::rat) \<le> of_int r" "(of_int r :: rat) \<le> 254" using r by simp_all
  have Vlo: "255 * of_int k + of_int r - 1 / 4 \<le> V"
    and Vhi: "V \<le> 255 * of_int k + of_int r + 1 / 4"
    using near Er by linarith+
  have mk: "m = k \<or> (m = k - 1 \<and> r = 0)"
  proof (cases "r = 0")
    case True
    have "of_int (k - 1) \<le> V / 255" "V / 255 < of_int (k + 1)"
      using Vlo Vhi True by (simp_all add: pos_le_divide_eq pos_divide_less_eq algebra_simps)
    then have "k - 1 \<le> m" "m < k + 1" by (simp_all only: m_def le_floor_iff floor_less_iff)
    then show ?thesis using True by auto
  next
    case False
    then have "(1::rat) \<le> of_int r" using r by simp
    then have "of_int k \<le> V / 255" "V / 255 < of_int k + 1"
      using Vlo Vhi rr by (simp_all add: pos_le_divide_eq pos_divide_less_eq algebra_simps)
    then have "m = k" unfolding m_def by (simp add: floor_unique)
    then show ?thesis by simp
  qed
  have mup: "m \<le> 10000" using mk k by auto
  have "m < 2 ^ 53" using mup by simp
  then have "round_double (of_int m) = of_int m" using m0 by (simp add: round_double_int)
  moreover have "float_of_int 255 = 255"
    using float_of_int_exact [of 255] by simp
  ultimately have "level (stored_brightness p) x = m"
    using m0 by (simp add: level_def float_floordiv_def int_of_float_def V_def [symmetric] m_def)
  then show "level (stored_brightness p) x = x * 100 * p div 255
         \<or> (level (stored_brightness p) x = x * 100 * p div 255 - 1 \<and> x * 100 * p mod 255 = 0)"
    and "0 \<le> level (stored_brightness p) x"
    and "level (stored_brightness p) x \<le> 10000"
    using mk m0 mup by (simp_all add: k_def r_def E_def)
qed

text \<open>Multiplying the stored brightness by 100 and rounding gives the percentage back.\<close>

lemma percent_of_stored:
  assumes p: "0 \<le> p" "p \<le> 100"
  shows "py_round (round_double (100 * stored_brightness p)) = p"
proof (cases "p = 0")
  case True
  then show ?thesis by (simp add: stored_brightness_0 round_double_def py_round_def)
next
  case False
  then have p1: "1 \<le> p" using p by simp
  define b where "b = stored_brightness p"
  define q where "q = 100 * b"
  have pr: "(1::rat) \<le> of_int p" "(of_int p :: rat) \<le> 100" using p1 p by simp_all
  have "\<bar>b - of_int p / 100\<bar> \<le> 1 / 2 ^ 53"
    unfolding b_def using p1 p(2) by (rule stored_brightness_near)
  then have "\<bar>b - of_int p / 100\<bar> \<le> 1 / 800" by simp
  then have qp: "\<bar>q - of_int p\<bar> \<le> 1 / 8" unfolding q_def by linarith
  have qlo: "7 / 8 \<le> q" and qhi: "q \<le> 101" using qp pr by linarith+
  have "2 powi (- 1022) \<le> q" using powi_m1022_small qlo by linarith
  then have "\<bar>round_double q - q\<bar> \<le> q / 2 ^ 53" by (rule round_double_error)
  also have "\<dots> \<le> 101 / 2 ^ 53" using qhi by (simp add: divide_le_cancel)
  also have "\<dots> \<le> 1 / 8" by simp
  finally have "\<bar>round_double q - q\<bar> \<le> 1 / 8" .
  with qp have "\<bar>round_double q - of_int p\<bar> < 1 / 2" by linarith
  then have "py_round (round_double q) = p" by (rule py_round_unique)
  then show ?thesis by (simp add: q_def b_def)
qed

lemma float_of_int_100: "float_of_int 100 = 100"
  using float_of_int_exact [of 100] by simp

lemma brightness_0_100_stored:
  assumes "0 \<le> p" "p \<le> 100"
  shows "brightness_0_100 (stored_brightness p) = p"
  using percent_of_stored [OF assms]
  by (simp add: brightness_0_100_def float_mul_def float_of_int_100)

lemma get_brightness_stored:
  assumes "0 \<le> p" "p \<le> 100" "self_brightness s = stored_brightness p"
  shows "get_brightness s = p"
  using percent_of_stored [OF assms(1,2)] assms(3)
  by (simp add: get_brightness_def float_mul_def float_of_int_100 mult.commute)

lemma stored_brightness_100: "stored_brightness 100 = 1"
  using round_double_int [of 1] by (simp add: stored_brightness_eq)

section \<open>Packing and sending\<close>

lemma and_0xFF: "(x :: byte) AND 0xFF = x"
proof -
  have "(0xFF :: byte) = - 1" by simp
  then show ?thesis by (simp only: word_bw_same word_log_esimps)
qed

lemma slice_1_14:
  assumes "14 < length f"
  shows "take 13 (drop 1 f) = [f ! 1, f ! 2, f ! 3, f ! 4, f ! 5, f ! 6, f ! 7, f ! 8, f ! 9,
                              f ! 10, f ! 11, f ! 12, f ! 13]"
proof -
  have "take 13 (drop 1 (map ((!) f) [0..<length f])) = map ((!) f) [1..<14]"
    using assms by (simp only: take_map drop_map drop_upt take_upt) simp
  then have "take 13 (drop 1 f) = map ((!) f) [1..<14]" by (simp only: map_nth)
  moreover have "[1..<14] = [1, 2, 3, 4, 5, 6, 7, 8, 9, 10, 11, 12, 13 :: nat]"
    by (simp add: upt_rec)
  ultimately show ?thesis by (simp only: list.map)
qed

lemma insert_checksum_ok:
  assumes "14 < length f"
  shows "insert_checksum f =
           Inr (f[14 := (f ! 1 XOR f ! 2 XOR f ! 3 XOR f ! 4 XOR f ! 5 XOR f ! 6 XOR f ! 7 XOR f ! 8
                         XOR f ! 9 XOR f ! 10 XOR f ! 11 XOR f ! 12 XOR f ! 13) AND 0xFF])"
  using assms by (simp add: insert_checksum_def slice_1_14 and_0xFF xor.assoc del: One_nat_def)

lemma pack_all_length:
  "pack_all fs vs = Inr bs \<Longrightarrow> length bs = calcsize fs"
proof (induction fs vs arbitrary: bs rule: pack_all.induct)
  case 1
  then show ?case by simp
next
  case (2 f fs v vs)
  then show ?case
    by (cases f) (auto simp: pack_one_def split: sum.splits if_splits)
qed simp_all

lemma pack_all_error:
  "pack_all fs vs = Inl e \<Longrightarrow> e = StructError"
proof (induction fs vs rule: pack_all.induct)
  case (2 f fs v vs)
  then show ?case
    by (cases f) (auto simp: pack_one_def split: sum.splits if_splits)
qed simp_all

lemma FRAME_pack_length: "FRAME_pack vs = Inr f \<Longrightarrow> length f = 16"
  by (auto simp: FRAME_pack_def FRAME_def dest: pack_all_length)

lemma FRAME_pack_error: "FRAME_pack vs = Inl e \<Longrightarrow> e = StructError"
  unfolding FRAME_pack_def by (rule pack_all_error)

lemma u16_roundtrip:
  assumes "0 \<le> v" "v \<le> 65535"
  shows "uint (word_of_int v :: byte) + 256 * uint (word_of_int (v div 256) :: byte) = v"
proof -
  have "v div 256 < 256" using assms by simp
  moreover have "0 \<le> v div 256" using assms by simp
  ultimately have "v div 256 mod 256 = v div 256" by simp
  then show ?thesis by (simp add: uint_word_of_int)
qed

section \<open>What each operation does\<close>

lemma on_eval:
  "on s = (None, s\<lparr>self_on := True,
                     published := published s @
                       [[0xFA, 0x23, 0, 0, 0, 0, 0, 0, 0, 0, 0, 0, 0, 0, 0x23, 0xFB]]\<rparr>)"
  by (simp add: on_def FRAME_pack_def FRAME_def pack_one_def CMD_POWER_def SUB_ON_def
      TAIL_POWER_def send_with_checksum_def insert_checksum_def)

lemma off_eval:
  "off s = (None, s\<lparr>self_on := False,
                      published := published s @
                        [[0xFA, 0x24, 0, 0, 0, 0, 0, 0, 0, 0, 0, 0, 0, 0, 0x24, 0xFB]]\<rparr>)"
  by (simp add: off_def FRAME_pack_def FRAME_def pack_one_def CMD_POWER_def SUB_OFF_def
      TAIL_POWER_def send_with_checksum_def insert_checksum_def)

lemma update_eval:
  "update s = (None, s\<lparr>self_on := True,
                         published := published s @
                           [[0xA9, 0xF0, 0, 0, 0, 0, 0, 0, 0, 0, 0, 0, 0, 0, 0xF0, 0x9A]]\<rparr>)"
  by (simp add: update_def FRAME_pack_def FRAME_def pack_one_def CMD_UPDATE_def SUB_UPDATE_def
      TAIL_UPDATE_def send_with_checksum_def insert_checksum_def)

lemma device_speed_range:
  assumes "1 \<le> a" "a \<le> 100"
  shows "0 \<le> device_speed a" "device_speed a \<le> 252"
  using assms by (simp_all add: device_speed_def)

lemma animate_True_eval:
  assumes "1 \<le> self_animation_speed s" "self_animation_speed s \<le> 100"
  shows "animate True s =
           (None, s\<lparr>published := published s @
              [[0x66, 0x25, 0, word_of_int (device_speed (self_animation_speed s)), 0, 0x64,
                0, 0, 0, 0, 0, 0, 0, 0,
                0x25 XOR word_of_int (device_speed (self_animation_speed s)) XOR 0x64, 0x99]]\<rparr>)"
proof -
  define ds where "ds = device_speed (self_animation_speed s)"
  have ds: "0 \<le> ds" "ds \<le> 252"
    using device_speed_range [OF assms] by (simp_all add: ds_def)
  then have z: "ds div 256 = 0" by simp
  have "FRAME_pack [CMD_ANIMATE, SUBMODE_ANIMATE, ds, 0x64, 0, 0, 0, 0, 0, TAIL_ANIMATE] =
          Inr [0x66, 0x25, 0, word_of_int ds, 0, 0x64, 0, 0, 0, 0, 0, 0, 0, 0, 0, 0x99]"
    using ds by (simp add: FRAME_pack_def FRAME_def pack_one_def CMD_ANIMATE_def
        SUBMODE_ANIMATE_def TAIL_ANIMATE_def z)
  then show ?thesis
    by (simp add: animate_def ds_def [symmetric] send_with_checksum_def insert_checksum_def
        and_0xFF xor.assoc)
qed

lemma uint_byte_range: "0 \<le> uint (w :: byte) \<and> uint w \<le> 255"
  using uint_lt2p [of w] by simp

lemma apply_static_eval:
  assumes p: "0 \<le> p" "p \<le> 100" and b: "self_brightness s = stored_brightness p"
    and c: "self_color s = RGB r g bl"
  shows "\<exists>f. apply_static s = (None, s\<lparr>published := published s @ [f]\<rparr>)
             \<and> length f = 16 \<and> f ! 0 = 0x28
             \<and> u16_at f 1 = level (stored_brightness p) (uint r)
             \<and> u16_at f 3 = level (stored_brightness p) (uint g)
             \<and> u16_at f 5 = level (stored_brightness p) (uint bl)
             \<and> u16_at f 7 = 0 \<and> u16_at f 9 = 0
             \<and> u16_at f 11 = p \<and> f ! 13 = 0x0F \<and> f ! 15 = 0x29"
proof -
  define lr where "lr = level (stored_brightness p) (uint r)"
  define lg where "lg = level (stored_brightness p) (uint g)"
  define lb where "lb = level (stored_brightness p) (uint bl)"
  have lr: "0 \<le> lr" "lr \<le> 65535"
    using level_stored(2,3) [of "uint r" p] uint_byte_range [of r] p by (simp_all add: lr_def)
  have lg: "0 \<le> lg" "lg \<le> 65535"
    using level_stored(2,3) [of "uint g" p] uint_byte_range [of g] p by (simp_all add: lg_def)
  have lb: "0 \<le> lb" "lb \<le> 65535"
    using level_stored(2,3) [of "uint bl" p] uint_byte_range [of bl] p by (simp_all add: lb_def)
  have pp: "0 \<le> p" "p \<le> 65535" using p by simp_all
  have pct: "brightness_0_100 (stored_brightness p) = p"
    using p by (rule brightness_0_100_stored)
  have pack: "FRAME_pack [CMD_SET_STATIC, lr, lg, lb, 0, 0, p, FLAG_SET_STATIC, 0, TAIL_SET_STATIC]
      = Inr [0x28, word_of_int lr, word_of_int (lr div 256),
             word_of_int lg, word_of_int (lg div 256),
             word_of_int lb, word_of_int (lb div 256),
             0, 0, 0, 0, word_of_int p, word_of_int (p div 256), 0x0F, 0, 0x29]"
    using lr lg lb pp
    by (simp add: FRAME_pack_def FRAME_def pack_one_def CMD_SET_STATIC_def
        FLAG_SET_STATIC_def TAIL_SET_STATIC_def)
  define f :: "byte list" where
    "f = [0x28, word_of_int lr, word_of_int (lr div 256),
          word_of_int lg, word_of_int (lg div 256),
          word_of_int lb, word_of_int (lb div 256),
          0, 0, 0, 0, word_of_int p, word_of_int (p div 256), 0x0F,
          (word_of_int lr XOR word_of_int (lr div 256) XOR word_of_int lg
           XOR word_of_int (lg div 256) XOR word_of_int lb XOR word_of_int (lb div 256)
           XOR word_of_int p XOR word_of_int (p div 256) XOR 0x0F),
          0x29]"
  have run: "apply_static s = (None, s\<lparr>published := published s @ [f]\<rparr>)"
    by (simp add: apply_static_def b c pct pack lr_def [symmetric] lg_def [symmetric]
        lb_def [symmetric] send_with_checksum_def insert_checksum_def and_0xFF xor.assoc f_def)
  have fields: "u16_at f 1 = lr" "u16_at f 3 = lg" "u16_at f 5 = lb" "u16_at f 11 = p"
    using u16_roundtrip [OF lr] u16_roundtrip [OF lg] u16_roundtrip [OF lb] u16_roundtrip [OF pp]
    by (simp_all add: u16_at_def f_def)
  have rest: "length f = 16" "f ! 0 = 0x28" "u16_at f 7 = 0" "u16_at f 9 = 0"
    "f ! 13 = 0x0F" "f ! 15 = 0x29"
    by (simp_all add: u16_at_def f_def)
  show ?thesis
    using run fields rest unfolding lr_def lg_def lb_def by blast
qed

text \<open>
  Every payload handed to the transport comes from \<open>FRAME_pack\<close> followed by
  \<open>insert_checksum\<close>; \<open>sent\<close> collects what is known of such a payload.
\<close>

lemma insert_checksum_xor:
  assumes "14 < length f"
  shows "insert_checksum f = Inr (f[14 := xor_1_13 f AND 0xFF])"
  using insert_checksum_ok [OF assms] by (simp add: xor_1_13_def)

lemma xor_1_13_update: "14 < length f \<Longrightarrow> xor_1_13 (f[14 := t]) = xor_1_13 f"
  by (simp add: xor_1_13_def)

lemma sent:
  assumes "FRAME_pack vs = Inr frame"
  shows "\<exists>payload. send_with_checksum s frame = (None, s\<lparr>published := published s @ [payload]\<rparr>)
           \<and> length payload = 16 \<and> payload ! 14 = xor_1_13 payload AND 0xFF"
proof -
  have len: "length frame = 16" using assms by (rule FRAME_pack_length)
  then have l14: "14 < length frame" by simp
  define payload where "payload = frame[14 := xor_1_13 frame AND 0xFF]"
  have "send_with_checksum s frame = (None, s\<lparr>published := published s @ [payload]\<rparr>)"
    by (simp add: send_with_checksum_def insert_checksum_xor [OF l14] payload_def)
  moreover have "length payload = 16" by (simp add: payload_def len)
  moreover have "payload ! 14 = xor_1_13 payload AND 0xFF"
    using l14 by (simp add: payload_def xor_1_13_update)
  ultimately show ?thesis by blast
qed

lemma pack_send_published:
  "\<exists>fs. published (snd (case FRAME_pack vs of Inl e \<Rightarrow> (Some e, s)
                          | Inr frame \<Rightarrow> send_with_checksum s frame)) = published s @ fs
        \<and> (\<forall>f\<in>set fs. length f = 16 \<and> f ! 14 = xor_1_13 f AND 0xFF)"
proof (cases "FRAME_pack vs")
  case (Inl e)
  then show ?thesis by simp
next
  case (Inr frame)
  from sent [OF this, of s] obtain payload where
    "send_with_checksum s frame = (None, s\<lparr>published := published s @ [payload]\<rparr>)"
    "length payload = 16" "payload ! 14 = xor_1_13 payload AND 0xFF" by blast
  then show ?thesis using Inr by (intro exI [of _ "[payload]"]) simp
qed

lemma apply_static_published:
  "\<exists>fs. published (snd (apply_static s)) = published s @ fs
        \<and> (\<forall>f\<in>set fs. length f = 16 \<and> f ! 14 = xor_1_13 f AND 0xFF)"
  unfolding apply_static_def Let_def
  by (cases "as_rgb_tuple (self_color s)") (simp add: pack_send_published)

lemma apply_static_published_upd:
  "\<exists>fs. published (snd (apply_static (s\<lparr>self_color := c\<rparr>))) = published s @ fs
        \<and> (\<forall>f\<in>set fs. length f = 16 \<and> f ! 14 = xor_1_13 f AND 0xFF)"
  "\<exists>fs. published (snd (apply_static (s\<lparr>self_brightness := b\<rparr>))) = published s @ fs
        \<and> (\<forall>f\<in>set fs. length f = 16 \<and> f ! 14 = xor_1_13 f AND 0xFF)"
  using apply_static_published [of "s\<lparr>self_color := c\<rparr>"]
    apply_static_published [of "s\<lparr>self_brightness := b\<rparr>"] by simp_all

lemma set_color_cases:
  "(\<exists>c. set_color parse col s = apply_static (s\<lparr>self_color := c\<rparr>))
   \<or> (\<exists>err. (\<forall>k. col \<noteq> ColorObj k) \<and> parse col = Inl err
          \<and> set_color parse col s
              = (Some (if err = ValidationError then InvalidColor else Uncaught err), s))"
proof (cases "\<exists>c. (case col of ColorObj c' \<Rightarrow> Inr c' | _ \<Rightarrow> parse col) = Inr c")
  case True
  then obtain c where "(case col of ColorObj c' \<Rightarrow> Inr c' | _ \<Rightarrow> parse col) = Inr c" ..
  then have "set_color parse col s = apply_static (s\<lparr>self_color := c\<rparr>)"
    by (cases col) (simp_all add: set_color_def)
  then show ?thesis by blast
next
  case False
  then obtain err where err: "parse col = Inl err" "\<forall>k. col \<noteq> ColorObj k"
    by (cases col; cases "parse col") auto
  then have "set_color parse col s
              = (Some (if err = ValidationError then InvalidColor else Uncaught err), s)"
    by (cases col) (simp_all add: set_color_def)
  with err show ?thesis by blast
qed

lemma set_color_published:
  "\<exists>fs. published (snd (set_color parse col s)) = published s @ fs
        \<and> (\<forall>f\<in>set fs. length f = 16 \<and> f ! 14 = xor_1_13 f AND 0xFF)"
  using set_color_cases [of parse col s]
proof (elim disjE exE conjE)
  fix c
  assume "set_color parse col s = apply_static (s\<lparr>self_color := c\<rparr>)"
  then show ?thesis by (simp only: apply_static_published_upd(1))
next
  fix err
  assume "set_color parse col s
            = (Some (if err = ValidationError then InvalidColor else Uncaught err), s)"
  then show ?thesis by simp
qed

lemma animate_published:
  "\<exists>fs. published (snd (animate e s)) = published s @ fs
        \<and> (\<forall>f\<in>set fs. length f = 16 \<and> f ! 14 = xor_1_13 f AND 0xFF)"
proof (cases e)
  case True
  then show ?thesis unfolding animate_def by (simp only: if_True pack_send_published)
next
  case False
  then show ?thesis unfolding animate_def by (simp only: if_False apply_static_published)
qed

lemma exec_published:
  "\<exists>fs. published (snd (exec parse c s)) = published s @ fs
        \<and> (\<forall>f\<in>set fs. length f = 16 \<and> f ! 14 = xor_1_13 f AND 0xFF)"
proof (cases c)
  case On
  then show ?thesis by (simp add: on_eval xor_1_13_def)
next
  case Off
  then show ?thesis by (simp add: off_eval xor_1_13_def)
next
  case (SetColor col)
  then show ?thesis by (simp only: exec.simps set_color_published)
next
  case (SetBrightness v)
  then show ?thesis
    by (simp only: exec.simps set_brightness_def Let_def apply_static_published_upd(2))
next
  case (SetAnimationSpeed v)
  then show ?thesis by (simp add: set_animation_speed_def)
next
  case (Animate e)
  then show ?thesis by (simp only: exec.simps animate_published)
next
  case Update
  then show ?thesis by (simp add: update_eval xor_1_13_def)
qed

lemma run_published:
  assumes "\<forall>f\<in>set (published s). length f = 16 \<and> f ! 14 = xor_1_13 f AND 0xFF"
  shows "\<forall>f\<in>set (published (run parse cs s)). length f = 16 \<and> f ! 14 = xor_1_13 f AND 0xFF"
  using assms
proof (induction cs arbitrary: s)
  case Nil
  then show ?case by simp
next
  case (Cons c cs)
  from exec_published [of parse c s] obtain fs where
    fs: "published (snd (exec parse c s)) = published s @ fs"
    and ok: "\<forall>f\<in>set fs. length f = 16 \<and> f ! 14 = xor_1_13 f AND 0xFF"
    by (elim exE conjE)
  have "\<forall>f\<in>set (published (snd (exec parse c s))). length f = 16 \<and> f ! 14 = xor_1_13 f AND 0xFF"
    unfolding fs set_append ball_Un using Cons.prems ok by (rule conjI)
  then have "\<forall>f\<in>set (published (run parse cs (snd (exec parse c s)))).
      length f = 16 \<and> f ! 14 = xor_1_13 f AND 0xFF"
    by (rule Cons.IH)
  then show ?case by (simp only: run.simps)
qed

section \<open>The invariant\<close>

lemma valid_init: "valid_state init"
  unfolding valid_state_def init_def
  by (simp add: bexI [of _ 100] stored_brightness_100)

lemma valid_state_published [simp]:
  "valid_state (s\<lparr>published := ps\<rparr>) = valid_state s"
  "valid_state (s\<lparr>self_on := b\<rparr>) = valid_state s"
  "valid_state (s\<lparr>self_color := c\<rparr>) = valid_state s"
  by (simp_all add: valid_state_def)

lemma apply_static_valid:
  assumes "valid_state s"
  shows "\<exists>f. apply_static s = (None, s\<lparr>published := published s @ [f]\<rparr>)"
proof -
  from assms obtain p where p: "0 \<le> p" "p \<le> 100" "self_brightness s = stored_brightness p"
    by (auto simp: valid_state_def)
  obtain r g bl where c: "self_color s = RGB r g bl" by (cases "self_color s")
  from apply_static_eval [OF p c] show ?thesis by blast
qed

lemma set_color_valid:
  assumes "valid_state s"
  shows "(\<exists>c f. set_color parse col s = (None, s\<lparr>self_color := c, published := published s @ [f]\<rparr>))
         \<or> (\<exists>err. (\<forall>k. col \<noteq> ColorObj k) \<and> parse col = Inl err
                \<and> set_color parse col s
                    = (Some (if err = ValidationError then InvalidColor else Uncaught err), s))"
  using set_color_cases [of parse col s]
proof (elim disjE exE)
  fix c
  assume eq: "set_color parse col s = apply_static (s\<lparr>self_color := c\<rparr>)"
  have "valid_state (s\<lparr>self_color := c\<rparr>)" using assms by simp
  from apply_static_valid [OF this] obtain f where
    "apply_static (s\<lparr>self_color := c\<rparr>) =
       (None, s\<lparr>self_color := c, published := published s @ [f]\<rparr>)" by auto
  with eq show ?thesis by auto
next
  fix err
  assume "(\<forall>k. col \<noteq> ColorObj k) \<and> parse col = Inl err
      \<and> set_color parse col s
          = (Some (if err = ValidationError then InvalidColor else Uncaught err), s)"
  then show ?thesis by blast
qed

lemma clamp_100: "0 \<le> max 0 (min 100 v)" "max 0 (min 100 (v::int)) \<le> 100"
  by simp_all

lemma set_brightness_eval:
  "\<exists>f. set_brightness v s =
         (None, s\<lparr>self_brightness := stored_brightness (max 0 (min 100 v)),
                   published := published s @ [f]\<rparr>)"
proof -
  define s' where "s' = s\<lparr>self_brightness := stored_brightness (max 0 (min 100 v))\<rparr>"
  obtain r g bl where c: "self_color s' = RGB r g bl" by (cases "self_color s'")
  have b: "self_brightness s' = stored_brightness (max 0 (min 100 v))" by (simp add: s'_def)
  from apply_static_eval [OF clamp_100 b c] obtain f where
    "apply_static s' = (None, s'\<lparr>published := published s' @ [f]\<rparr>)" by blast
  then have "set_brightness v s =
         (None, s\<lparr>self_brightness := stored_brightness (max 0 (min 100 v)),
                   published := published s @ [f]\<rparr>)"
    by (simp add: set_brightness_def Let_def s'_def)
  then show ?thesis ..
qed

lemma exec_valid:
  assumes "valid_state s"
  shows "valid_state (snd (exec parse c s))"
proof (cases c)
  case On
  then show ?thesis using assms by (simp add: on_eval)
next
  case Off
  then show ?thesis using assms by (simp add: off_eval)
next
  case (SetColor col)
  then show ?thesis using assms set_color_valid [OF assms, of parse col] by auto
next
  case (SetBrightness v)
  obtain f where "set_brightness v s =
         (None, s\<lparr>self_brightness := stored_brightness (max 0 (min 100 v)),
                   published := published s @ [f]\<rparr>)"
    using set_brightness_eval by blast
  moreover have "max 0 (min 100 v) \<in> {0..100}" by simp
  ultimately show ?thesis
    using assms SetBrightness unfolding valid_state_def by auto
next
  case (SetAnimationSpeed v)
  then show ?thesis using assms by (simp add: set_animation_speed_def valid_state_def)
next
  case (Animate e)
  show ?thesis
  proof (cases e)
    case True
    with assms Animate show ?thesis
      by (simp add: animate_True_eval valid_state_def)
  next
    case False
    with Animate apply_static_valid [OF assms] assms show ?thesis
      by (auto simp: animate_def)
  qed
next
  case Update
  then show ?thesis using assms by (simp add: update_eval)
qed

lemma run_valid:
  assumes "valid_state s"
  shows "valid_state (run parse cs s)"
  using assms by (induction cs arbitrary: s) (simp_all add: exec_valid)

lemma exec_error:
  assumes "valid_state s" "fst (exec parse c s) = Some e"
  shows "\<exists>col err. c = SetColor col \<and> (\<forall>k. col \<noteq> ColorObj k) \<and> parse col = Inl err
           \<and> e = (if err = ValidationError then InvalidColor else Uncaught err)"
proof (cases c)
  case On
  then show ?thesis using assms by (simp add: on_eval)
next
  case Off
  then show ?thesis using assms by (simp add: off_eval)
next
  case (SetColor col)
  then show ?thesis using assms set_color_valid [OF assms(1), of parse col] by auto
next
  case (SetBrightness v)
  then show ?thesis using assms set_brightness_eval [of v s] by auto
next
  case (SetAnimationSpeed v)
  then show ?thesis using assms by (simp add: set_animation_speed_def)
next
  case (Animate en)
  show ?thesis
  proof (cases en)
    case True
    with assms Animate show ?thesis
      by (simp add: animate_True_eval valid_state_def)
  next
    case False
    with Animate apply_static_valid [OF assms(1)] assms show ?thesis
      by (auto simp: animate_def)
  qed
next
  case Update
  then show ?thesis using assms by (simp add: update_eval)
qed

lemma send_with_checksum_snd: "\<exists>ps. snd (send_with_checksum s f) = s\<lparr>published := ps\<rparr>"
proof (cases "insert_checksum f")
  case (Inl e)
  then have "snd (send_with_checksum s f) = s\<lparr>published := published s\<rparr>"
    by (simp add: send_with_checksum_def)
  then show ?thesis ..
next
  case (Inr payload)
  then have "snd (send_with_checksum s f) = s\<lparr>published := published s @ [payload]\<rparr>"
    by (simp add: send_with_checksum_def)
  then show ?thesis ..
qed

lemma pack_send_snd:
  "\<exists>ps. snd (case FRAME_pack vs of Inl e \<Rightarrow> (Some e, s)
                | Inr frame \<Rightarrow> send_with_checksum s frame) = s\<lparr>published := ps\<rparr>"
proof (cases "FRAME_pack vs")
  case (Inl e)
  then have "snd (case FRAME_pack vs of Inl e \<Rightarrow> (Some e, s)
                | Inr frame \<Rightarrow> send_with_checksum s frame) = s\<lparr>published := published s\<rparr>"
    by simp
  then show ?thesis ..
next
  case (Inr frame)
  then show ?thesis using send_with_checksum_snd [of s frame] by simp
qed

lemma apply_static_snd: "\<exists>ps. snd (apply_static s) = s\<lparr>published := ps\<rparr>"
  unfolding apply_static_def Let_def
  by (cases "as_rgb_tuple (self_color s)") (simp add: pack_send_snd)

lemma animate_snd: "\<exists>ps. snd (animate e s) = s\<lparr>published := ps\<rparr>"
  by (cases e) (simp_all add: animate_def pack_send_snd apply_static_snd)

lemma set_color_snd:
  "\<exists>c ps. snd (set_color parse col s) = s\<lparr>self_color := c, published := ps\<rparr>"
  using set_color_cases [of parse col s]
proof (elim disjE exE conjE)
  fix c
  assume "set_color parse col s = apply_static (s\<lparr>self_color := c\<rparr>)"
  moreover obtain ps where
    "snd (apply_static (s\<lparr>self_color := c\<rparr>)) = s\<lparr>self_color := c, published := ps\<rparr>"
    using apply_static_snd [of "s\<lparr>self_color := c\<rparr>"] by auto
  ultimately have "snd (set_color parse col s) = s\<lparr>self_color := c, published := ps\<rparr>"
    by simp
  then show ?thesis by blast
next
  fix err
  assume "set_color parse col s
            = (Some (if err = ValidationError then InvalidColor else Uncaught err), s)"
  then have "snd (set_color parse col s)
      = s\<lparr>self_color := self_color s, published := published s\<rparr>" by simp
  then show ?thesis by blast
qed

section \<open>Further facts used by the claims\<close>

lemma stored_brightness_le_1:
  assumes "0 \<le> p" "p \<le> 100"
  shows "0 \<le> stored_brightness p" "stored_brightness p \<le> 1"
proof -
  show "0 \<le> stored_brightness p"
    using assms by (simp add: stored_brightness_eq round_double_nonneg)
  show "stored_brightness p \<le> 1"
  proof (cases "p = 100 \<or> p = 0")
    case True
    then show ?thesis by (auto simp: stored_brightness_100 stored_brightness_0)
  next
    case False
    then have p: "1 \<le> p" "p \<le> 99" using assms by simp_all
    then have "(of_int p :: rat) \<le> 99" by simp
    moreover have "\<bar>stored_brightness p - of_int p / 100\<bar> \<le> 1 / 2 ^ 53"
      using p by (intro stored_brightness_near) simp_all
    then have "\<bar>stored_brightness p - of_int p / 100\<bar> \<le> 1 / 100" by simp
    ultimately show ?thesis by linarith
  qed
qed






text \<open>
  A rejected colour changes nothing: whatever the constructor raises, \<open>set_color\<close> returns
  with the state it was called in.  In a reachable state this is the only way a call raises.
\<close>

lemma set_color_rejected:
  assumes "parse col = Inl err" "\<forall>k. col \<noteq> ColorObj k"
  shows "set_color parse col s
           = (Some (if err = ValidationError then InvalidColor else Uncaught err), s)"
  using assms by (cases col) (simp_all add: set_color_def)

lemma run_error:
  assumes "fst (exec parse c (run parse cs init)) = Some e"
  shows "\<exists>col err. c = SetColor col \<and> (\<forall>k. col \<noteq> ColorObj k) \<and> parse col = Inl err
           \<and> e = (if err = ValidationError then InvalidColor else Uncaught err)"
proof -
  have "valid_state (run parse cs init)" using valid_init by (rule run_valid)
  from exec_error [OF this assms] show ?thesis .
qed

section \<open>The claims\<close>

text \<open>
  C1: \<open>insert_checksum\<close> succeeds on every frame of at least 15 bytes; in its result the
  byte at offset 14 is the XOR of the bytes at offsets 1 to 13, masked to 8 bits, whatever
  value \<open>t\<close> the assembled frame held at offset 14; the length and every other byte are those
  of the assembled frame.  Every payload the controller ever publishes has this checksum.
\<close>

theorem C1_checksum:
  "(14 < length frame \<longrightarrow>
      (\<exists>payload. insert_checksum frame = Inr payload
         \<and> payload ! 14 = xor_1_13 payload AND 0xFF
         \<and> length payload = length frame
         \<and> (\<forall>i<length frame. i \<noteq> 14 \<longrightarrow> payload ! i = frame ! i)
         \<and> insert_checksum (frame[14 := t]) = Inr payload))
   \<and> (\<forall>p\<in>set (published (run parse cs init)). p ! 14 = xor_1_13 p AND 0xFF)"
proof (intro conjI impI)
  assume len: "14 < length frame"
  define payload where "payload = frame[14 := xor_1_13 frame AND 0xFF]"
  have 1: "insert_checksum frame = Inr payload"
    using len by (simp add: insert_checksum_xor payload_def)
  have 2: "payload ! 14 = xor_1_13 payload AND 0xFF"
    using len by (simp add: payload_def xor_1_13_update)
  have 3: "length payload = length frame" by (simp add: payload_def)
  have 4: "\<forall>i<length frame. i \<noteq> 14 \<longrightarrow> payload ! i = frame ! i"
    by (simp add: payload_def)
  have "14 < length (frame[14 := t])" using len by simp
  then have "insert_checksum (frame[14 := t])
      = Inr (frame[14 := t, 14 := xor_1_13 (frame[14 := t]) AND 0xFF])"
    by (rule insert_checksum_xor)
  then have 5: "insert_checksum (frame[14 := t]) = Inr payload"
    using len by (simp add: payload_def xor_1_13_update)
  from 1 2 3 4 5
  show "\<exists>payload. insert_checksum frame = Inr payload
         \<and> payload ! 14 = xor_1_13 payload AND 0xFF
         \<and> length payload = length frame
         \<and> (\<forall>i<length frame. i \<noteq> 14 \<longrightarrow> payload ! i = frame ! i)
         \<and> insert_checksum (frame[14 := t]) = Inr payload"
    by blast
next
  have "\<forall>f\<in>set (published init). length f = 16 \<and> f ! 14 = xor_1_13 f AND 0xFF"
    by (simp add: init_def)
  from run_published [OF this, of parse cs]
  show "\<forall>p\<in>set (published (run parse cs init)). p ! 14 = xor_1_13 p AND 0xFF"
    by simp
qed

theorem C1_checksum_witness:
  "14 < length [0xFA, 0x23, 0, 0, 0, 0, 0, 0, 0, 0, 0, 0, 0, 0, 0, 0xFB :: byte]
   \<and> insert_checksum [0xFA, 0x23, 0, 0, 0, 0, 0, 0, 0, 0, 0, 0, 0, 0, 0, 0xFB]
       = Inr [0xFA, 0x23, 0, 0, 0, 0, 0, 0, 0, 0, 0, 0, 0, 0, 0x23, 0xFB]
   \<and> insert_checksum ([0xFA, 0x23, 0, 0, 0, 0, 0, 0, 0, 0, 0, 0, 0, 0, 0, 0xFB][14 := 0x99])
       = Inr [0xFA, 0x23, 0, 0, 0, 0, 0, 0, 0, 0, 0, 0, 0, 0, 0x23, 0xFB]
   \<and> xor_1_13 [0xFA, 0x23, 0, 0, 0, 0, 0, 0, 0, 0, 0, 0, 0, 0, 0x23, 0xFB] AND 0xFF = 0x23
   \<and> published (run (\<lambda>c. Inl ColorError) [On, Off] init)
       = [[0xFA, 0x23, 0, 0, 0, 0, 0, 0, 0, 0, 0, 0, 0, 0, 0x23, 0xFB],
          [0xFA, 0x24, 0, 0, 0, 0, 0, 0, 0, 0, 0, 0, 0, 0, 0x24, 0xFB]]
   \<and> xor_1_13 [0xFA, 0x24, 0, 0, 0, 0, 0, 0, 0, 0, 0, 0, 0, 0, 0x24, 0xFB] AND 0xFF = 0x24"
  using C1_checksum [of "[0xFA, 0x23, 0, 0, 0, 0, 0, 0, 0, 0, 0, 0, 0, 0, 0, 0xFB]" "0x99"
      "\<lambda>c. Inl ColorError" "[On, Off]"]
  by (simp add: insert_checksum_def on_eval off_eval init_def xor_1_13_def)

text \<open>
  C2, as stated, fails: the payload that \<open>on\<close> publishes from the initial state has 16 bytes,
  not 15.
\<close>

theorem C2_counterexample:
  "published (snd (on init)) = [[0xFA, 0x23, 0, 0, 0, 0, 0, 0, 0, 0, 0, 0, 0, 0, 0x23, 0xFB]]
   \<and> length (last_frame (snd (on init))) = 16
   \<and> length (last_frame (snd (on init))) \<noteq> 15"
  by (simp add: on_eval init_def last_frame_def)

text \<open>
  C2, amended: the format \<open><B6H3B\<close> packs to 16 bytes, so every frame that \<open>FRAME_pack\<close>
  builds, every payload \<open>insert_checksum\<close> makes of it and every payload published in a
  reachable state is exactly 16 bytes long.
\<close>

theorem C2_frame_length:
  "calcsize FRAME = 16
   \<and> (FRAME_pack vs = Inr frame \<longrightarrow>
        length frame = 16 \<and> (\<exists>payload. insert_checksum frame = Inr payload \<and> length payload = 16))
   \<and> (\<forall>f\<in>set (published (run parse cs init)). length f = 16)"
proof (intro conjI impI)
  show "calcsize FRAME = 16" by (simp add: FRAME_def)
next
  assume "FRAME_pack vs = Inr frame"
  then show "length frame = 16" by (rule FRAME_pack_length)
next
  assume "FRAME_pack vs = Inr frame"
  then have len: "length frame = 16" by (rule FRAME_pack_length)
  then have "insert_checksum frame = Inr (frame[14 := xor_1_13 frame AND 0xFF])"
    by (simp add: insert_checksum_xor)
  moreover have "length (frame[14 := xor_1_13 frame AND 0xFF]) = 16" using len by simp
  ultimately show "\<exists>payload. insert_checksum frame = Inr payload \<and> length payload = 16"
    by blast
next
  have "\<forall>f\<in>set (published init). length f = 16 \<and> f ! 14 = xor_1_13 f AND 0xFF"
    by (simp add: init_def)
  from run_published [OF this, of parse cs]
  show "\<forall>f\<in>set (published (run parse cs init)). length f = 16"
    by simp
qed

theorem C2_frame_length_witness:
  "FRAME_pack [0xA9, 0xF0, 0, 0, 0, 0, 0, 0, 0, 0x9A]
     = Inr [0xA9, 0xF0, 0, 0, 0, 0, 0, 0, 0, 0, 0, 0, 0, 0, 0, 0x9A]
   \<and> length [0xA9, 0xF0, 0, 0, 0, 0, 0, 0, 0, 0, 0, 0, 0, 0, 0, 0x9A :: byte] = 16
   \<and> published (run (\<lambda>c. Inl ColorError) [Update, Off] init)
       = [[0xA9, 0xF0, 0, 0, 0, 0, 0, 0, 0, 0, 0, 0, 0, 0, 0xF0, 0x9A],
          [0xFA, 0x24, 0, 0, 0, 0, 0, 0, 0, 0, 0, 0, 0, 0, 0x24, 0xFB]]
   \<and> map length (published (run (\<lambda>c. Inl ColorError) [Update, Off] init)) = [16, 16]"
  using C2_frame_length [of "[0xA9, 0xF0, 0, 0, 0, 0, 0, 0, 0, 0x9A]"
      "[0xA9, 0xF0, 0, 0, 0, 0, 0, 0, 0, 0, 0, 0, 0, 0, 0, 0x9A]" "\<lambda>c. Inl ColorError" "[Update, Off]"]
  by (simp add: FRAME_pack_def FRAME_def pack_one_def update_eval off_eval init_def)




text \<open>
  C4: in every reachable state \<open>animate(True)\<close> publishes one Animate frame whose second
  16-bit field holds \<open>(100 - speed) * 255 div 100\<close> for the stored animation speed; after
  \<open>set_animation_speed(100)\<close> the field is 0, after \<open>set_animation_speed(1)\<close> it is 252.
\<close>

theorem C4_animate_speed:
  "fst (animate True (run parse cs init)) = None
   \<and> published (snd (animate True (run parse cs init)))
       = published (run parse cs init) @ [last_frame (snd (animate True (run parse cs init)))]
   \<and> last_frame (snd (animate True (run parse cs init))) ! 0 = 0x66
   \<and> u16_at (last_frame (snd (animate True (run parse cs init)))) 1 = 0x25
   \<and> u16_at (last_frame (snd (animate True (run parse cs init)))) 3
       = (100 - self_animation_speed (run parse cs init)) * 255 div 100
   \<and> u16_at (last_frame (snd (animate True (run parse cs init)))) 5 = 0x64
   \<and> u16_at (last_frame (snd (animate True (snd (set_animation_speed 100 s))))) 3 = 0
   \<and> u16_at (last_frame (snd (animate True (snd (set_animation_speed 1 s))))) 3 = 252"
proof -
  have field: "fst (animate True t) = None
      \<and> published (snd (animate True t)) = published t @ [last_frame (snd (animate True t))]
      \<and> last_frame (snd (animate True t)) ! 0 = 0x66
      \<and> u16_at (last_frame (snd (animate True t))) 1 = 0x25
      \<and> u16_at (last_frame (snd (animate True t))) 3 = device_speed (self_animation_speed t)
      \<and> u16_at (last_frame (snd (animate True t))) 5 = 0x64"
    if t: "1 \<le> self_animation_speed t" "self_animation_speed t \<le> 100" for t
  proof -
    define ds where "ds = device_speed (self_animation_speed t)"
    have ds: "0 \<le> ds" "ds \<le> 252"
      using device_speed_range [OF t] by (simp_all add: ds_def)
    then have "ds mod 256 = ds" by simp
    then have "uint (word_of_int ds :: byte) = ds" by (simp add: uint_word_of_int)
    then show ?thesis
      by (simp add: animate_True_eval [OF t] last_frame_def u16_at_def ds_def)
  qed
  have "valid_state (run parse cs init)" using valid_init by (rule run_valid)
  then have r: "1 \<le> self_animation_speed (run parse cs init)"
    "self_animation_speed (run parse cs init) \<le> 100"
    by (simp_all add: valid_state_def)
  have a: "u16_at (last_frame (snd (animate True (snd (set_animation_speed 100 s))))) 3 = 0"
    using field [of "snd (set_animation_speed 100 s)"]
    by (simp add: set_animation_speed_def device_speed_def)
  have b: "u16_at (last_frame (snd (animate True (snd (set_animation_speed 1 s))))) 3 = 252"
    using field [of "snd (set_animation_speed 1 s)"]
    by (simp add: set_animation_speed_def device_speed_def)
  show ?thesis
    using field [OF r] a b by (simp add: device_speed_def)
qed

text \<open>
  C5: for every integer \<open>p\<close> and every state, \<open>set_brightness p\<close> returns without raising,
  and \<open>get_brightness\<close> called right after it returns \<open>p\<close> when \<open>p\<close> is between 0 and 100,
  0 when \<open>p\<close> is negative and 100 when \<open>p\<close> exceeds 100.
\<close>

theorem C5_brightness_round_trip:
  "fst (set_brightness p s) = None
   \<and> get_brightness (snd (set_brightness p s)) = (if p < 0 then 0 else if 100 < p then 100 else p)"
proof -
  obtain f where "set_brightness p s =
         (None, s\<lparr>self_brightness := stored_brightness (max 0 (min 100 p)),
                   published := published s @ [f]\<rparr>)"
    using set_brightness_eval by blast
  moreover have "get_brightness (s\<lparr>self_brightness := stored_brightness (max 0 (min 100 p)),
                   published := published s @ [f]\<rparr>) = max 0 (min 100 p)"
    by (rule get_brightness_stored [OF clamp_100]) simp
  ultimately show ?thesis by auto
qed

text \<open>
  C6: \<open>set_animation_speed\<close> stores its argument clamped into the range from 1 to 100 (0 is
  stored as 1, 150 as 100), raises nothing and publishes no frame; the stored speed has no
  effect on what any call other than \<open>animate(True)\<close> publishes.
\<close>

theorem C6_animation_speed_clamp:
  "set_animation_speed v s = (None, s\<lparr>self_animation_speed := max 1 (min 100 v)\<rparr>)
   \<and> published (snd (set_animation_speed v s)) = published s
   \<and> self_animation_speed (snd (set_animation_speed 0 s)) = 1
   \<and> self_animation_speed (snd (set_animation_speed 150 s)) = 100
   \<and> (c \<noteq> Animate True \<longrightarrow>
        published (snd (exec parse c (snd (set_animation_speed v s))))
          = published (snd (exec parse c s)))"
proof -
  define s' where "s' = s\<lparr>self_animation_speed := max 1 (min 100 v)\<rparr>"
  have static: "apply_static (t\<lparr>self_animation_speed := a\<rparr>)
      = (fst (apply_static t), (snd (apply_static t))\<lparr>self_animation_speed := a\<rparr>)" for t a
    unfolding apply_static_def Let_def send_with_checksum_def
    by (cases "as_rgb_tuple (self_color t)") (simp split: sum.splits)
  have "published (snd (exec parse c s')) = published (snd (exec parse c s))"
    if "c \<noteq> Animate True"
  proof (cases c)
    case On
    then show ?thesis by (simp add: on_eval s'_def)
  next
    case Off
    then show ?thesis by (simp add: off_eval s'_def)
  next
    case (SetColor col)
    have "published (snd (apply_static (s'\<lparr>self_color := k\<rparr>)))
        = published (snd (apply_static (s\<lparr>self_color := k\<rparr>)))" for k
    proof -
      have "s'\<lparr>self_color := k\<rparr>
          = (s\<lparr>self_color := k\<rparr>)\<lparr>self_animation_speed := max 1 (min 100 v)\<rparr>"
        by (cases s) (simp add: s'_def)
      then show ?thesis by (simp only: static snd_conv) simp
    qed
    then show ?thesis
      using SetColor by (cases col; cases "parse col") (simp_all add: set_color_def s'_def)
  next
    case (SetBrightness b)
    have "published (snd (apply_static (s'\<lparr>self_brightness := k\<rparr>)))
        = published (snd (apply_static (s\<lparr>self_brightness := k\<rparr>)))" for k
    proof -
      have "s'\<lparr>self_brightness := k\<rparr>
          = (s\<lparr>self_brightness := k\<rparr>)\<lparr>self_animation_speed := max 1 (min 100 v)\<rparr>"
        by (cases s) (simp add: s'_def)
      then show ?thesis by (simp only: static snd_conv) simp
    qed
    then show ?thesis using SetBrightness by (simp add: set_brightness_def Let_def)
  next
    case (SetAnimationSpeed a)
    then show ?thesis by (simp add: set_animation_speed_def s'_def)
  next
    case (Animate e)
    with that have "e = False" by simp
    then show ?thesis
      using Animate static [where t = s and a = "max 1 (min 100 v)"] by (simp add: animate_def s'_def)
  next
    case Update
    then show ?thesis by (simp add: update_eval s'_def)
  qed
  then show ?thesis by (simp add: set_animation_speed_def s'_def)
qed

theorem C6_animation_speed_clamp_witness:
  "On \<noteq> Animate True
   \<and> set_animation_speed 150 init = (None, init\<lparr>self_animation_speed := 100\<rparr>)
   \<and> published (snd (exec (\<lambda>c. Inl ColorError) On (snd (set_animation_speed 150 init))))
        = published (snd (exec (\<lambda>c. Inl ColorError) On init))"
  using C6_animation_speed_clamp [of 150 init On "\<lambda>c. Inl ColorError"]
  by (simp add: set_animation_speed_def)

text \<open>
  C7: \<open>on\<close> sets the power flag that \<open>is_on\<close> returns, \<open>off\<close> clears it and \<open>update\<close> sets
  it; \<open>set_color\<close>, \<open>set_brightness\<close>, \<open>set_animation_speed\<close> and \<open>animate\<close> with either
  argument leave it as it was.
\<close>

theorem C7_power_flag:
  "is_on (snd (on s)) = True
   \<and> is_on (snd (off s)) = False
   \<and> is_on (snd (update s)) = True
   \<and> is_on (snd (set_color parse col s)) = is_on s
   \<and> is_on (snd (set_brightness v s)) = is_on s
   \<and> is_on (snd (set_animation_speed a s)) = is_on s
   \<and> is_on (snd (animate e s)) = is_on s"
proof -
  obtain c ps where "snd (set_color parse col s) = s\<lparr>self_color := c, published := ps\<rparr>"
    using set_color_snd by blast
  then have 1: "is_on (snd (set_color parse col s)) = is_on s" by (simp add: is_on_def)
  obtain f where "set_brightness v s =
         (None, s\<lparr>self_brightness := stored_brightness (max 0 (min 100 v)),
                   published := published s @ [f]\<rparr>)"
    using set_brightness_eval by blast
  then have 2: "is_on (snd (set_brightness v s)) = is_on s" by (simp add: is_on_def)
  obtain qs where "snd (animate e s) = s\<lparr>published := qs\<rparr>"
    using animate_snd by blast
  then have 3: "is_on (snd (animate e s)) = is_on s" by (simp add: is_on_def)
  show ?thesis
    using 1 2 3 by (simp add: is_on_def on_eval off_eval update_eval set_animation_speed_def)
qed

text \<open>
  C8: \<open>set_color("not-a-color")\<close> with pydantic's constructor, which raises its own
  \<open>ColorError\<close> for a string it cannot read.  The \<open>except ValidationError\<close> clause does not
  match, so the caller receives the constructor's error as it is and not the invalid-colour
  error that wraps it; the state is unchanged and nothing is published.  The wrap is raised
  only when the constructor raises a \<open>ValidationError\<close>.
\<close>

theorem C8_rejected_color:
  "set_color (\<lambda>c. Inl ColorError) (Str ''not-a-color'') init = (Some (Uncaught ColorError), init)
   \<and> Uncaught ColorError \<noteq> InvalidColor
   \<and> published (snd (set_color (\<lambda>c. Inl ColorError) (Str ''not-a-color'') init)) = []
   \<and> set_color (\<lambda>c. Inl ValidationError) (Str ''not-a-color'') init = (Some InvalidColor, init)"
  by (simp add: set_color_def init_def)

text \<open>
  C9: in every reachable state the brightness is between 0 and 1, the colour channels are
  between 0 and 255 and the animation speed is between 1 and 100; the three channel fields of
  the Set-Static-Color frame are between 0 and 10000, its brightness field between 0 and 100,
  and the speed field of the Animate frame between 0 and 252.  So \<open>_apply_static\<close> and
  \<open>animate(True)\<close> return without raising, and no call raises \<open>struct.error\<close>.
\<close>

theorem C9_fields_in_range:
  "(case as_rgb_tuple (self_color (run parse cs init)) of
      (r, g, b) \<Rightarrow>
        0 \<le> r \<and> r \<le> 255 \<and> 0 \<le> g \<and> g \<le> 255 \<and> 0 \<le> b \<and> b \<le> 255
        \<and> 0 \<le> level (self_brightness (run parse cs init)) r
        \<and> level (self_brightness (run parse cs init)) r \<le> 10000
        \<and> 0 \<le> level (self_brightness (run parse cs init)) g
        \<and> level (self_brightness (run parse cs init)) g \<le> 10000
        \<and> 0 \<le> level (self_brightness (run parse cs init)) b
        \<and> level (self_brightness (run parse cs init)) b \<le> 10000)
   \<and> 0 \<le> self_brightness (run parse cs init) \<and> self_brightness (run parse cs init) \<le> 1
   \<and> 1 \<le> self_animation_speed (run parse cs init)
   \<and> self_animation_speed (run parse cs init) \<le> 100
   \<and> 0 \<le> brightness_0_100 (self_brightness (run parse cs init))
   \<and> brightness_0_100 (self_brightness (run parse cs init)) \<le> 100
   \<and> 0 \<le> device_speed (self_animation_speed (run parse cs init))
   \<and> device_speed (self_animation_speed (run parse cs init)) \<le> 252
   \<and> fst (apply_static (run parse cs init)) = None
   \<and> fst (animate True (run parse cs init)) = None
   \<and> fst (exec parse c (run parse cs init)) \<noteq> Some StructError"
proof -
  define s where "s = run parse cs init"
  have v: "valid_state s" unfolding s_def using valid_init by (rule run_valid)
  then obtain p where p: "0 \<le> p" "p \<le> 100" and b: "self_brightness s = stored_brightness p"
    by (auto simp: valid_state_def)
  have a: "1 \<le> self_animation_speed s" "self_animation_speed s \<le> 100"
    using v by (simp_all add: valid_state_def)
  obtain r g bl where c: "self_color s = RGB r g bl" by (cases "self_color s")
  have ch: "0 \<le> uint r" "uint r \<le> 255" "0 \<le> uint g" "uint g \<le> 255"
    "0 \<le> uint bl" "uint bl \<le> 255"
    using uint_byte_range [of r] uint_byte_range [of g] uint_byte_range [of bl] by simp_all
  have lv: "0 \<le> level (stored_brightness p) (uint r)" "level (stored_brightness p) (uint r) \<le> 10000"
    "0 \<le> level (stored_brightness p) (uint g)" "level (stored_brightness p) (uint g) \<le> 10000"
    "0 \<le> level (stored_brightness p) (uint bl)" "level (stored_brightness p) (uint bl) \<le> 10000"
    using level_stored(2,3) [OF ch(1,2) p] level_stored(2,3) [OF ch(3,4) p]
      level_stored(2,3) [OF ch(5,6) p] by simp_all
  have pct: "brightness_0_100 (stored_brightness p) = p"
    using p by (rule brightness_0_100_stored)
  have st: "fst (apply_static s) = None"
    using apply_static_valid [OF v] by auto
  have an: "fst (animate True s) = None"
    by (simp add: animate_True_eval [OF a])
  have ne: "fst (exec parse c s) \<noteq> Some StructError"
    using exec_error [OF v, of parse c StructError] by (auto split: if_splits)
  show ?thesis
    unfolding s_def [symmetric]
    using ch lv stored_brightness_le_1 [OF p] a p device_speed_range [OF a] st an ne
    by (simp add: c b pct)
qed

text \<open>
  C10: the payloads published by \<open>on\<close>, \<open>off\<close> and \<open>update\<close> are constant byte sequences,
  the same in every state; bytes 2 to 13 are zero, so the checksum byte at offset 14 equals
  the sub-command byte at offset 1: \<open>0x23\<close> for \<open>on\<close>, \<open>0x24\<close> for \<open>off\<close> and \<open>0xF0\<close> for
  \<open>update\<close>.
\<close>

theorem C10_constant_frames:
  "published (snd (on s)) =
     published s @ [[0xFA, 0x23, 0, 0, 0, 0, 0, 0, 0, 0, 0, 0, 0, 0, 0x23, 0xFB]]
   \<and> published (snd (off s)) =
     published s @ [[0xFA, 0x24, 0, 0, 0, 0, 0, 0, 0, 0, 0, 0, 0, 0, 0x24, 0xFB]]
   \<and> published (snd (update s)) =
     published s @ [[0xA9, 0xF0, 0, 0, 0, 0, 0, 0, 0, 0, 0, 0, 0, 0, 0xF0, 0x9A]]
   \<and> last_frame (snd (on s)) ! 14 = 0x23
   \<and> last_frame (snd (off s)) ! 14 = 0x24
   \<and> last_frame (snd (update s)) ! 14 = 0xF0"
  by (simp add: on_eval off_eval update_eval last_frame_def)

end
